theory Spec2Isabelle
  imports Main
begin

section \<open>The watchdog store (main-server/store/store.go)\<close>

text \<open>
  A shallow embedding of the in-memory store of the ping-monitoring service. Every
  operation of \<^verbatim>\<open>store.go\<close> becomes a function from the store's state to a returned
  error (\<open>None\<close> is Go's \<^verbatim>\<open>nil\<close>) and the state after the call. The operations are
  modelled one call at a time: the reader/writer lock serialises them, so
  \<^verbatim>\<open>withWriteLock\<close> and \<^verbatim>\<open>withReadLock\<close> only run their body. The registry of
  engines (\<^verbatim>\<open>Register\<close>) and the binding of an engine (\<^verbatim>\<open>SetStoreEngine\<close>) come before
  any of these calls and are not part of the model: a store is taken as bound.
\<close>

subsection \<open>Data model\<close>

text \<open>
  Modelled from the spec: the declarations of \<^verbatim>\<open>PingRet\<close>, \<^verbatim>\<open>User\<close>, \<^verbatim>\<open>Users\<close>,
  \<^verbatim>\<open>Servers\<close> and the constructor \<^verbatim>\<open>newUser\<close> are not in \<^verbatim>\<open>store.go\<close>. Their fields
  are those of the spec's data model; \<^verbatim>\<open>MonitorServers\<close> is the \<^verbatim>\<open>map[string]bool\<close> that
  \<^verbatim>\<open>store.go\<close> reads (\<^verbatim>\<open>u.MonitorServers[server]\<close>), writes
  (\<^verbatim>\<open>u.MonitorServers[server] = true\<close>) and deletes from. \<^verbatim>\<open>newUser\<close> makes a user
  with an empty monitor set, every other field at Go's zero value.

  \<^verbatim>\<open>Users\<close> maps a name to a \<^verbatim>\<open>*User\<close>. The store itself gives every name a fresh
  \<^verbatim>\<open>User\<close> (\<^verbatim>\<open>AddUser\<close>), so no two names share one; the model keeps the \<^verbatim>\<open>User\<close>
  value under its name, and a write through the pointer is an update of that entry.
\<close>

record PingRet =
  Time :: string
  Ping :: string

record User =
  Username :: string
  Password :: string
  MonitorServers :: "string \<rightharpoonup> bool"

type_synonym Servers = "string \<rightharpoonup> (string \<rightharpoonup> PingRet list)"

type_synonym Users = "string \<rightharpoonup> User"

definition newUser :: User where
  "newUser = \<lparr>Username = [], Password = [], MonitorServers = Map.empty\<rparr>"

text \<open>
  Go errors are compared by identity. The store makes its own error values
  (\<^verbatim>\<open>_ERROR_INCORRECT_PASSWORD\<close> and the results of \<^verbatim>\<open>fmt.Errorf\<close>, each allocated by
  the call that returns it); whatever the engine returns is a value of the engine's
  making and is handed on as it is. \<open>EngineError\<close> keeps the two apart.
  \<open>RuntimePanic\<close> is no value a caller receives: it marks a call that is left through
  a Go panic (an index out of range) instead of a return.
\<close>

datatype error =
    ERROR_INCORRECT_PASSWORD
  | Errorf string
  | EngineError string
  | RuntimePanic

definition DEFAULT_PING :: string where
  "DEFAULT_PING = ''0.000''"

text \<open>
  The \<^verbatim>\<open>StoreEngine\<close> interface is implemented outside the store. Its two write
  methods are taken as parameters: each maps the engine's own state and the
  arguments of the call to the error it returns and the engine's state afterwards.
  \<^verbatim>\<open>LoadConfig\<close> and \<^verbatim>\<open>Init\<close> are used by \<^verbatim>\<open>SetStoreEngine\<close> only.
\<close>

record 'e StoreEngine =
  WriteUser :: "'e \<Rightarrow> string \<Rightarrow> User \<Rightarrow> string option \<times> 'e"
  BatchWritePingRets :: "'e \<Rightarrow> string \<Rightarrow> string \<Rightarrow> PingRet list \<Rightarrow> string option \<times> 'e"

text \<open>
  The store. \<open>storeEngine\<close> is the state of the bound engine. A channel is the sequence
  of names sent on it so far, oldest first (the consumer is outside the store, and a
  send on a full channel waits for it). \<open>allServers\<close> holds \<^verbatim>\<open>int64\<close> counters; they are
  integers here. A counter that is the number of the users monitoring a server
  cannot wrap, since \<open>2^63\<close> users do not fit in a Go map; a property that admits
  other counters says how far from the bounds of \<^verbatim>\<open>int64\<close> they are (\<open>within_int64\<close>
  below).
\<close>

record 'e Store =
  servers :: Servers
  users :: Users
  allServers :: "string \<rightharpoonup> int"
  storeEngine :: 'e
  AddServerChan :: "string list"
  KickServerChan :: "string list"
  closeCounter :: int
  isClosed :: bool

type_synonym 'e body = "'e Store \<Rightarrow> error option \<times> 'e Store"

subsection \<open>Lifecycle: Close and the guard of the mutating operations\<close>

text \<open>
  \<^verbatim>\<open>Close\<close> polls the counter of pending operations until it is not positive. Within
  one call nothing else changes the counter, so the loop is a recursion on the same
  state, and not returning is the value \<open>None\<close>.
\<close>

partial_function (option) Close_wait :: "'e Store \<Rightarrow> 'e Store option" where
  "Close_wait s = (if closeCounter s > 0 then Close_wait s else Some s)"

definition Close :: "'e Store \<Rightarrow> 'e Store option" where
  "Close s =
     (if isClosed s then Some s
      else (case Close_wait s of
              None \<Rightarrow> None
            | Some s' \<Rightarrow> Some (s'\<lparr>isClosed := True\<rparr>)))"

definition acquire :: "'e Store \<Rightarrow> 'e Store" where
  "acquire s = s\<lparr>closeCounter := closeCounter s + 1\<rparr>"

definition release :: "'e Store \<Rightarrow> 'e Store" where
  "release s = s\<lparr>closeCounter := closeCounter s + (- 1)\<rparr>"

definition do :: "'e body \<Rightarrow> 'e body" where
  "do f s =
     (if isClosed s then (None, s)
      else (case f (acquire s) of (err, s') \<Rightarrow> (err, release s')))"

definition withWriteLock :: "'e body \<Rightarrow> 'e body" where
  "withWriteLock f s = f s"

definition withReadLock :: "'e body \<Rightarrow> 'e body" where
  "withReadLock f s = f s"

subsection \<open>User operations\<close>

definition GetUser :: "'e Store \<Rightarrow> string \<Rightarrow> User option" where
  "GetUser s username = users s username"

definition UpdatePassword ::
  "'e StoreEngine \<Rightarrow> string \<Rightarrow> string \<Rightarrow> string \<Rightarrow> 'e body" where
  "UpdatePassword E username oldpassword newpassword =
     do (withReadLock (\<lambda>s.
       case users s username of
         None \<Rightarrow> (None, s)
       | Some u \<Rightarrow>
           if Password u \<noteq> oldpassword then (Some ERROR_INCORRECT_PASSWORD, s)
           else
             (let u' = u\<lparr>Password := newpassword\<rparr>;
                  w = WriteUser E (storeEngine s) username u'
              in (map_option EngineError (fst w),
                  s\<lparr>users := (users s)(username \<mapsto> u'), storeEngine := snd w\<rparr>))))"

definition AddUser :: "'e StoreEngine \<Rightarrow> string \<Rightarrow> string \<Rightarrow> 'e body" where
  "AddUser E username password =
     do (withWriteLock (\<lambda>s.
       case users s username of
         Some u \<Rightarrow> (Some (Errorf (''User '' @ username @ '' already exist'')), s)
       | None \<Rightarrow>
           (let u' = newUser\<lparr>Password := password\<rparr>;
                w = WriteUser E (storeEngine s) username u'
            in (map_option EngineError (fst w),
                s\<lparr>users := (users s)(username \<mapsto> u'), storeEngine := snd w\<rparr>))))"

subsection \<open>Monitor operations\<close>

text \<open>
  Reading a Go map at a missing key gives the zero value: \<open>0\<close> for a counter of
  \<open>allServers\<close>, \<^verbatim>\<open>false\<close> for \<^verbatim>\<open>u.MonitorServers[server]\<close>. \<^verbatim>\<open>s.allServers[server]--\<close> and
  \<^verbatim>\<open>++\<close> read the counter that way and store the result under the key.
\<close>

definition refcount :: "(string \<rightharpoonup> int) \<Rightarrow> string \<Rightarrow> int" where
  "refcount m server = (case m server of None \<Rightarrow> 0 | Some n \<Rightarrow> n)"

definition monitors :: "User \<Rightarrow> string \<Rightarrow> bool" where
  "monitors u server = (case MonitorServers u server of None \<Rightarrow> False | Some b \<Rightarrow> b)"

definition DeleteMonitorServer :: "'e StoreEngine \<Rightarrow> string \<Rightarrow> string \<Rightarrow> 'e body" where
  "DeleteMonitorServer E username server =
     do (withWriteLock (\<lambda>s.
       case users s username of
         None \<Rightarrow> (Some (Errorf (''user '' @ username @ '' not exist'')), s)
       | Some u \<Rightarrow>
           (let u' = (if monitors u server
                      then u\<lparr>MonitorServers := (MonitorServers u)(server := None)\<rparr>
                      else u);
                all1 = (if monitors u server
                        then (allServers s)(server \<mapsto> refcount (allServers s) server - 1)
                        else allServers s);
                kick = (refcount all1 server \<le> 0);
                all2 = (if kick then all1(server := None) else all1);
                kc = (if kick then KickServerChan s @ [server] else KickServerChan s);
                w = WriteUser E (storeEngine s) username u'
            in (map_option EngineError (fst w),
                s\<lparr>users := (users s)(username \<mapsto> u'), allServers := all2,
                  KickServerChan := kc, storeEngine := snd w\<rparr>))))"

definition AddMonitorServer :: "'e StoreEngine \<Rightarrow> string \<Rightarrow> string \<Rightarrow> 'e body" where
  "AddMonitorServer E username server =
     do (withReadLock (\<lambda>s.
       case users s username of
         None \<Rightarrow> (Some (Errorf (''User '' @ username @ '' not exist'')), s)
       | Some u \<Rightarrow>
           if monitors u server
           then (Some (Errorf (server @ '' is already in monitoring list'')), s)
           else
             (let u' = u\<lparr>MonitorServers := (MonitorServers u)(server \<mapsto> True)\<rparr>;
                  ac = (case allServers s server of
                          None \<Rightarrow> AddServerChan s @ [server]
                        | Some n \<Rightarrow> AddServerChan s);
                  all1 = (allServers s)(server \<mapsto> refcount (allServers s) server + 1);
                  w = WriteUser E (storeEngine s) username u'
              in (map_option EngineError (fst w),
                  s\<lparr>users := (users s)(username \<mapsto> u'), allServers := all1,
                    AddServerChan := ac, storeEngine := snd w\<rparr>))))"

definition GetMonitorResult ::
  "'e Store \<Rightarrow> string \<Rightarrow> string \<Rightarrow> (string \<rightharpoonup> PingRet list) option \<times> error option" where
  "GetMonitorResult s username server =
     (case users s username of
        None \<Rightarrow> (None, Some (Errorf (''User '' @ username @ '' not exist'')))
      | Some u \<Rightarrow>
          (case MonitorServers u server of
             Some b \<Rightarrow> (servers s server, None)
           | None \<Rightarrow> (None, Some (Errorf (''You are not monitoring '' @ server)))))"

subsection \<open>Ping ingestion and padding\<close>

definition defaultPingRet :: "string \<Rightarrow> PingRet" where
  "defaultPingRet t = \<lparr>Time = t, Ping = DEFAULT_PING\<rparr>"

text \<open>
  The search for the longest location ranges over a Go map, whose iteration order
  is not fixed. The order of one execution is a parameter, \<open>order\<close>: the keys of
  \<^verbatim>\<open>s.servers[server]\<close> as the \<^verbatim>\<open>range\<close> visits them. \<open>range_order\<close> says that a list is
  such an order for a map.
\<close>

definition range_order :: "string list \<Rightarrow> (string \<rightharpoonup> 'a) \<Rightarrow> bool" where
  "range_order order m = (distinct order \<and> set order = dom m)"

fun find_max ::
  "(string \<rightharpoonup> PingRet list) \<Rightarrow> string list \<Rightarrow> nat \<times> string \<Rightarrow> nat \<times> string" where
  "find_max m [] (maxLength, maxLocation) = (maxLength, maxLocation)"
| "find_max m (loc # rest) (maxLength, maxLocation) =
     (case m loc of
        None \<Rightarrow> find_max m rest (maxLength, maxLocation)
      | Some prs \<Rightarrow>
          if length prs > maxLength then find_max m rest (length prs, loc)
          else find_max m rest (maxLength, maxLocation))"

text \<open>
  The padding loop \<^verbatim>\<open>for i := len(...); i < maxLength; i++\<close>. An index past the end of
  the longest location's slice is a run-time panic in Go: the value \<open>None\<close>.
\<close>

function pad_loop ::
  "PingRet list \<Rightarrow> nat \<Rightarrow> nat \<Rightarrow> PingRet list \<Rightarrow> PingRet list option" where
  "pad_loop longest i maxLength padPrs =
     (if i < maxLength
      then (if i < length longest
            then pad_loop longest (Suc i) maxLength
                   (padPrs @ [defaultPingRet (Time (longest ! i))])
            else None)
      else Some padPrs)"
  by pat_completeness auto
termination
  by (relation "measure (\<lambda>(longest, i, maxLength, padPrs). maxLength - i)") auto

declare pad_loop.simps [simp del]

text \<open>
  Lines 202 to 207: \<^verbatim>\<open>s.servers[server]\<close> after the map of the server and the slice of
  the location have been created where they were missing.
\<close>

definition ensure_location ::
  "Servers \<Rightarrow> string \<Rightarrow> string \<Rightarrow> (string \<rightharpoonup> PingRet list)" where
  "ensure_location sv server location =
     (let m0 = (case sv server of None \<Rightarrow> Map.empty | Some m \<Rightarrow> m)
      in case m0 location of None \<Rightarrow> m0(location \<mapsto> []) | Some prs \<Rightarrow> m0)"

text \<open>Reading a map of slices: a missing key gives the \<^verbatim>\<open>nil\<close> slice, of length 0.\<close>

definition slice_at :: "(string \<rightharpoonup> PingRet list) \<Rightarrow> string \<Rightarrow> PingRet list" where
  "slice_at m location = (case m location of None \<Rightarrow> [] | Some prs \<Rightarrow> prs)"

text \<open>
  The pad buffer of \<^verbatim>\<open>AppendPingRet\<close>, from \<^verbatim>\<open>// find the max\<close> to
  \<^verbatim>\<open>padPrs = append(padPrs, pr)\<close>; \<open>m\<close> is \<^verbatim>\<open>s.servers[server]\<close> after the two lazy
  creations. \<open>None\<close> is the panic of an index out of range (\<^verbatim>\<open>[maxLength-1]\<close>, or
  inside the loop).
\<close>

definition pad_buffer ::
  "(string \<rightharpoonup> PingRet list) \<Rightarrow> string list \<Rightarrow> string \<Rightarrow> PingRet \<Rightarrow>
   PingRet list option" where
  "pad_buffer m order location pr =
     (case find_max m order (0, []) of (maxLength, maxLocation) \<Rightarrow>
        if maxLength \<noteq> 0
        then
          (if maxLength - 1 < length (slice_at m maxLocation)
           then
             (case pad_loop (slice_at m maxLocation) (length (slice_at m location))
                     (if Time (slice_at m maxLocation ! (maxLength - 1)) = Time pr
                      then maxLength - 1 else maxLength) []
              of None \<Rightarrow> None
               | Some padPrs \<Rightarrow> Some (padPrs @ [pr]))
           else None)
        else Some [pr])"

text \<open>
  A panic inside \<^verbatim>\<open>AppendPingRet\<close> would leave it after the two lazy creations, through
  the deferred unlock and release. Lemma \<open>pad_buffer_no_panic\<close> shows that no call takes
  this branch.
\<close>

definition AppendPingRet ::
  "'e StoreEngine \<Rightarrow> string list \<Rightarrow> string \<Rightarrow> string \<Rightarrow> PingRet \<Rightarrow> 'e body" where
  "AppendPingRet E order server location pr =
     do (withWriteLock (\<lambda>s.
       if refcount (allServers s) server \<le> 0
       then (Some (Errorf (''server '' @ server @ '' is not exist'')), s)
       else
         (let m = ensure_location (servers s) server location
          in case pad_buffer m order location pr of
               None \<Rightarrow> (Some RuntimePanic, s\<lparr>servers := (servers s)(server \<mapsto> m)\<rparr>)
             | Some padPrs \<Rightarrow>
                 (let w = BatchWritePingRets E (storeEngine s) server location padPrs
                  in (map_option EngineError (fst w),
                      s\<lparr>servers :=
                           (servers s)(server \<mapsto> m(location \<mapsto> slice_at m location @ padPrs)),
                        storeEngine := snd w\<rparr>)))))"

subsection \<open>Sequences of calls\<close>

datatype call =
    CallUpdatePassword string string string
  | CallAddUser string string
  | CallDeleteMonitorServer string string
  | CallAddMonitorServer string string
  | CallAppendPingRet "string list" string string PingRet

fun step :: "'e StoreEngine \<Rightarrow> call \<Rightarrow> 'e Store \<Rightarrow> 'e Store" where
  "step E (CallUpdatePassword username old new) s = snd (UpdatePassword E username old new s)"
| "step E (CallAddUser username password) s = snd (AddUser E username password s)"
| "step E (CallDeleteMonitorServer username server) s = snd (DeleteMonitorServer E username server s)"
| "step E (CallAddMonitorServer username server) s = snd (AddMonitorServer E username server s)"
| "step E (CallAppendPingRet order server location pr) s =
     snd (AppendPingRet E order server location pr s)"

fun run :: "'e StoreEngine \<Rightarrow> call list \<Rightarrow> 'e Store \<Rightarrow> 'e Store" where
  "run E [] s = s"
| "run E (c # cs) s = run E cs (step E c s)"

subsection \<open>Notions used by the properties\<close>

text \<open>The users that monitor a server, and the invariant of the reference counts.\<close>

definition monitoring_users :: "'e Store \<Rightarrow> string \<Rightarrow> string set" where
  "monitoring_users s server = {n. \<exists>u. users s n = Some u \<and> monitors u server}"

definition refcount_consistent :: "'e Store \<Rightarrow> bool" where
  "refcount_consistent s =
     (finite (dom (users s)) \<and>
      (\<forall>server. refcount (allServers s) server = int (card (monitoring_users s server))))"







text \<open>
  The index up to which \<^verbatim>\<open>AppendPingRet\<close> pads, given the slice of the longest location.
\<close>

definition pad_target :: "PingRet list \<Rightarrow> PingRet \<Rightarrow> nat" where
  "pad_target longest pr =
     (if Time (last longest) = Time pr then length longest - 1 else length longest)"

subsection \<open>Engines and stores of the examples\<close>

text \<open>
  Two engines whose state is the list of the writes they received: one accepts
  every write, the other refuses every write with the same error.
\<close>

datatype engine_call =
    WriteUserCall string User
  | BatchWritePingRetsCall string string "PingRet list"

definition recording_engine :: "engine_call list StoreEngine" where
  "recording_engine =
     \<lparr>WriteUser = (\<lambda>log username u. (None, log @ [WriteUserCall username u])),
      BatchWritePingRets =
        (\<lambda>log server location prs. (None, log @ [BatchWritePingRetsCall server location prs]))\<rparr>"

definition failing_engine :: "engine_call list StoreEngine" where
  "failing_engine =
     \<lparr>WriteUser = (\<lambda>log username u. (Some ''disk full'', log @ [WriteUserCall username u])),
      BatchWritePingRets =
        (\<lambda>log server location prs.
           (Some ''disk full'', log @ [BatchWritePingRetsCall server location prs]))\<rparr>"

definition fresh_store :: "engine_call list Store" where
  "fresh_store =
     \<lparr>servers = Map.empty, users = Map.empty, allServers = Map.empty, storeEngine = [],
      AddServerChan = [], KickServerChan = [], closeCounter = 0, isClosed = False\<rparr>"

text \<open>User alice monitors srv1 and nothing has been measured yet.\<close>

definition alice :: User where
  "alice = \<lparr>Username = [], Password = ''pw1'', MonitorServers = [''srv1'' \<mapsto> True]\<rparr>"

definition alice_store :: "'e \<Rightarrow> 'e Store" where
  "alice_store e =
     \<lparr>servers = Map.empty, users = [''alice'' \<mapsto> alice], allServers = [''srv1'' \<mapsto> 1],
      storeEngine = e, AddServerChan = [''srv1''], KickServerChan = [],
      closeCounter = 0, isClosed = False\<rparr>"

text \<open>User bob monitors nothing, and no server is monitored.\<close>

definition bob :: User where
  "bob = \<lparr>Username = [], Password = ''pw2'', MonitorServers = Map.empty\<rparr>"

definition bob_store :: "engine_call list Store" where
  "bob_store = fresh_store\<lparr>users := [''bob'' \<mapsto> bob]\<rparr>"


text \<open>
  The store of alice after two samples of srv1 from location eu, at the ticks t1
  and t2, and none yet from location us.
\<close>

definition tick_locations :: "string \<rightharpoonup> PingRet list" where
  "tick_locations =
     [''eu'' \<mapsto> [\<lparr>Time = ''t1'', Ping = ''10''\<rparr>, \<lparr>Time = ''t2'', Ping = ''11''\<rparr>],
      ''us'' \<mapsto> []]"

definition tick_store :: "engine_call list Store" where
  "tick_store = (alice_store [])\<lparr>servers := [''srv1'' \<mapsto> tick_locations]\<rparr>"

section \<open>Properties\<close>

subsection \<open>The guard\<close>

lemmas guard_defs = do_def withWriteLock_def withReadLock_def acquire_def release_def

lemma do_closed: "isClosed s \<Longrightarrow> do f s = (None, s)"
  by (simp add: do_def)

subsection \<open>The search for the longest location and the padding loop\<close>

lemma find_max_cases:
  "find_max m order (n0, l0) = (n, l) \<Longrightarrow>
     (n = n0 \<and> l = l0) \<or> (n0 < n \<and> (\<exists>prs. m l = Some prs \<and> length prs = n))"
proof (induction order arbitrary: n0 l0)
  case Nil
  then show ?case by simp
next
  case (Cons loc rest)
  show ?case
  proof (cases "m loc")
    case None
    with Cons show ?thesis by simp
  next
    case (Some prs)
    show ?thesis
    proof (cases "n0 < length prs")
      case True
      with Some Cons.prems have "find_max m rest (length prs, loc) = (n, l)" by simp
      from Cons.IH[OF this] Some True show ?thesis by auto
    next
      case False
      with Some Cons.prems have "find_max m rest (n0, l0) = (n, l)" by simp
      from Cons.IH[OF this] show ?thesis .
    qed
  qed
qed

lemma find_max_upper:
  "find_max m order (n0, l0) = (n, l) \<Longrightarrow>
     n0 \<le> n \<and> (\<forall>loc \<in> set order. \<forall>prs. m loc = Some prs \<longrightarrow> length prs \<le> n)"
proof (induction order arbitrary: n0 l0)
  case Nil
  then show ?case by simp
next
  case (Cons loc rest)
  show ?case
  proof (cases "m loc")
    case None
    with Cons show ?thesis by simp
  next
    case (Some prs)
    show ?thesis
    proof (cases "n0 < length prs")
      case True
      with Some Cons.prems have "find_max m rest (length prs, loc) = (n, l)" by simp
      from Cons.IH[OF this] Some True show ?thesis by auto
    next
      case False
      with Some Cons.prems have "find_max m rest (n0, l0) = (n, l)" by simp
      from Cons.IH[OF this] Some False show ?thesis by auto
    qed
  qed
qed

lemma pad_loop_in_range:
  "maxLength \<le> length longest \<Longrightarrow>
   pad_loop longest i maxLength padPrs =
     Some (padPrs @ map (\<lambda>k. defaultPingRet (Time (longest ! k))) [i..<maxLength])"
proof (induction longest i maxLength padPrs rule: pad_loop.induct)
  case (1 longest i maxLength padPrs)
  show ?case
  proof (cases "i < maxLength")
    case True
    with "1.prems" have il: "i < length longest" by simp
    from "1.IH"[OF True il "1.prems"] True il show ?thesis
      by (subst pad_loop.simps) (simp add: upt_conv_Cons)
  next
    case False
    then show ?thesis by (subst pad_loop.simps) simp
  qed
qed

lemma pad_buffer_longest:
  assumes fm: "find_max m order (0, []) = (n, l)" and n: "n \<noteq> 0"
  shows "\<exists>longest. m l = Some longest \<and> length longest = n \<and>
           pad_buffer m order location pr =
             Some (map (\<lambda>k. defaultPingRet (Time (longest ! k)))
                     [length (slice_at m location) ..< pad_target longest pr] @ [pr])"
proof -
  from find_max_cases[OF fm] n obtain longest where
    l: "m l = Some longest" and len: "length longest = n" by auto
  from len n have ne: "longest \<noteq> []" by auto
  have sl: "slice_at m l = longest" using l by (simp add: slice_at_def)
  have lastn: "longest ! (n - 1) = last longest"
    using ne len by (simp add: last_conv_nth)
  have tgt: "(if Time (longest ! (n - 1)) = Time pr then n - 1 else n) = pad_target longest pr"
    using len lastn by (simp add: pad_target_def)
  have le: "pad_target longest pr \<le> length longest"
    by (simp add: pad_target_def)
  have inr: "n - 1 < length longest" using len n by simp
  have "pad_buffer m order location pr =
          Some (map (\<lambda>k. defaultPingRet (Time (longest ! k)))
                  [length (slice_at m location) ..< pad_target longest pr] @ [pr])"
  proof (cases "Time (last longest) = Time pr")
    case True
    then have t: "pad_target longest pr = n - 1" using len by (simp add: pad_target_def)
    have le': "n - 1 \<le> length longest" using len by simp
    show ?thesis using n inr True lastn
      by (simp add: pad_buffer_def fm sl t pad_loop_in_range[OF le'] del: One_nat_def)
  next
    case False
    then have t: "pad_target longest pr = n" using len by (simp add: pad_target_def)
    have le': "n \<le> length longest" using len by simp
    show ?thesis using n inr False lastn
      by (simp add: pad_buffer_def fm sl t pad_loop_in_range[OF le'] del: One_nat_def)
  qed
  with l len show ?thesis by blast
qed

lemma pad_buffer_empty:
  assumes fm: "find_max m order (0, []) = (0, l)"
  shows "pad_buffer m order location pr = Some [pr]"
  by (simp add: pad_buffer_def fm)

lemma pad_buffer_no_panic: "\<exists>pad. pad_buffer m order location pr = Some (pad @ [pr])"
proof -
  obtain n l where fm: "find_max m order (0, []) = (n, l)" by (cases "find_max m order (0, [])")
  show ?thesis
  proof (cases "n = 0")
    case True
    with fm pad_buffer_empty[of m order l location pr] have "pad_buffer m order location pr = Some ([] @ [pr])" by simp
    then show ?thesis by blast
  next
    case False
    from pad_buffer_longest[OF fm False, of location pr] show ?thesis by blast
  qed
qed

subsection \<open>The operations on an open store\<close>

text \<open>
  Each mutating operation with the guard and the lock unfolded: the returned error
  and the state after the call, when the store is not closed.
\<close>

lemma UpdatePassword_open:
  "\<not> isClosed s \<Longrightarrow>
   UpdatePassword E username old new s =
     (case users s username of
        None \<Rightarrow> (None, s)
      | Some u \<Rightarrow>
          if Password u \<noteq> old then (Some ERROR_INCORRECT_PASSWORD, s)
          else (map_option EngineError (fst (WriteUser E (storeEngine s) username (u\<lparr>Password := new\<rparr>))),
                s\<lparr>users := (users s)(username \<mapsto> u\<lparr>Password := new\<rparr>),
                  storeEngine := snd (WriteUser E (storeEngine s) username (u\<lparr>Password := new\<rparr>))\<rparr>))"
  by (simp add: UpdatePassword_def guard_defs Let_def split: option.split)

lemma AddUser_open:
  "\<not> isClosed s \<Longrightarrow>
   AddUser E username password s =
     (case users s username of
        Some u \<Rightarrow> (Some (Errorf (''User '' @ username @ '' already exist'')), s)
      | None \<Rightarrow>
          (map_option EngineError (fst (WriteUser E (storeEngine s) username (newUser\<lparr>Password := password\<rparr>))),
           s\<lparr>users := (users s)(username \<mapsto> newUser\<lparr>Password := password\<rparr>),
             storeEngine := snd (WriteUser E (storeEngine s) username (newUser\<lparr>Password := password\<rparr>))\<rparr>))"
  by (simp add: AddUser_def guard_defs Let_def split: option.split)

lemma AddMonitorServer_open:
  "\<not> isClosed s \<Longrightarrow>
   AddMonitorServer E username server s =
     (case users s username of
        None \<Rightarrow> (Some (Errorf (''User '' @ username @ '' not exist'')), s)
      | Some u \<Rightarrow>
          if monitors u server
          then (Some (Errorf (server @ '' is already in monitoring list'')), s)
          else
            (map_option EngineError
               (fst (WriteUser E (storeEngine s) username
                       (u\<lparr>MonitorServers := (MonitorServers u)(server \<mapsto> True)\<rparr>))),
             s\<lparr>users := (users s)(username \<mapsto> u\<lparr>MonitorServers := (MonitorServers u)(server \<mapsto> True)\<rparr>),
               allServers := (allServers s)(server \<mapsto> refcount (allServers s) server + 1),
               AddServerChan := (case allServers s server of
                                   None \<Rightarrow> AddServerChan s @ [server]
                                 | Some n \<Rightarrow> AddServerChan s),
               storeEngine :=
                 snd (WriteUser E (storeEngine s) username
                        (u\<lparr>MonitorServers := (MonitorServers u)(server \<mapsto> True)\<rparr>))\<rparr>))"
  by (simp add: AddMonitorServer_def guard_defs Let_def split: option.split)

lemma DeleteMonitorServer_open:
  "\<not> isClosed s \<Longrightarrow>
   DeleteMonitorServer E username server s =
     (case users s username of
        None \<Rightarrow> (Some (Errorf (''user '' @ username @ '' not exist'')), s)
      | Some u \<Rightarrow>
          (let u' = (if monitors u server
                     then u\<lparr>MonitorServers := (MonitorServers u)(server := None)\<rparr>
                     else u);
               all1 = (if monitors u server
                       then (allServers s)(server \<mapsto> refcount (allServers s) server - 1)
                       else allServers s)
           in (map_option EngineError (fst (WriteUser E (storeEngine s) username u')),
               s\<lparr>users := (users s)(username \<mapsto> u'),
                 allServers := (if refcount all1 server \<le> 0 then all1(server := None) else all1),
                 KickServerChan := (if refcount all1 server \<le> 0
                                    then KickServerChan s @ [server] else KickServerChan s),
                 storeEngine := snd (WriteUser E (storeEngine s) username u')\<rparr>)))"
  by (simp add: DeleteMonitorServer_def guard_defs Let_def split: option.split)

lemma AppendPingRet_open:
  assumes "\<not> isClosed s"
  shows "AppendPingRet E order server location pr s =
     (if refcount (allServers s) server \<le> 0
      then (Some (Errorf (''server '' @ server @ '' is not exist'')), s)
      else
        (let m = ensure_location (servers s) server location;
             padPrs = the (pad_buffer m order location pr);
             w = BatchWritePingRets E (storeEngine s) server location padPrs
         in (map_option EngineError (fst w),
             s\<lparr>servers := (servers s)(server \<mapsto> m(location \<mapsto> slice_at m location @ padPrs)),
               storeEngine := snd w\<rparr>)))"
proof -
  obtain pad where "pad_buffer (ensure_location (servers s) server location) order location pr
                      = Some (pad @ [pr])"
    using pad_buffer_no_panic by blast
  with assms show ?thesis
    by (simp add: AppendPingRet_def guard_defs Let_def)
qed

subsection \<open>Close\<close>

text \<open>
  \<^verbatim>\<open>Close\<close> returns when no call is pending, and when it returns it has changed
  nothing but the closed flag.
\<close>

lemma Close_wait_Some:
  assumes "Close_wait s = Some s'"
  shows "s' = s \<and> closeCounter s \<le> 0"
proof (rule Close_wait.raw_induct[where P = "\<lambda>s s'. s' = s \<and> closeCounter s \<le> 0", OF _ assms])
  fix wait :: "'a Store \<Rightarrow> 'a Store option" and s sa
  assume ih: "\<And>x y. wait x = Some y \<Longrightarrow> y = x \<and> closeCounter x \<le> 0"
    and eq: "(if 0 < closeCounter s then wait s else Some s) = Some sa"
  show "sa = s \<and> closeCounter s \<le> 0"
  proof (cases "0 < closeCounter s")
    case True
    with eq have "wait s = Some sa" by simp
    from ih[OF this] True show ?thesis by simp
  next
    case False
    with eq show ?thesis by simp
  qed
qed

lemma Close_wait_idle: "closeCounter s \<le> 0 \<Longrightarrow> Close_wait s = Some s"
  by (subst Close_wait.simps) simp

lemma Close_returns: "closeCounter s \<le> 0 \<Longrightarrow> Close s = Some (s\<lparr>isClosed := True\<rparr>)"
  by (cases "isClosed s") (simp_all add: Close_def Close_wait_idle)

lemma Close_Some: "Close s0 = Some s \<Longrightarrow> s = s0\<lparr>isClosed := True\<rparr>"
  by (auto simp: Close_def dest: Close_wait_Some split: if_splits option.splits)

subsection \<open>Samples of a location before a call\<close>

lemma slice_at_ensure_location:
  "slice_at (ensure_location sv server location) location =
     (case sv server of None \<Rightarrow> [] | Some m \<Rightarrow> slice_at m location)"
  by (simp add: slice_at_def ensure_location_def split: option.split)

subsection \<open>User operations\<close>

lemmas example_defs =
  fresh_store_def bob_store_def bob_def alice_store_def alice_def
  recording_engine_def failing_engine_def

text \<open>
  Claim C10. On an open store, \<^verbatim>\<open>UpdatePassword\<close> for a name that is not in \<open>users\<close>
  returns \<^verbatim>\<open>nil\<close> (no user-not-found error) and leaves the whole state as it was:
  the engine's state too, so no write reached the engine, whatever the engine is.
\<close>

theorem UpdatePassword_unknown_user:
  assumes "\<not> isClosed s" and "users s username = None"
  shows "UpdatePassword E username oldpassword newpassword s = (None, s)"
  using assms by (simp add: UpdatePassword_open)

text \<open>With the recording engine the log of writes stays empty.\<close>

theorem UpdatePassword_unknown_user_witness:
  "\<not> isClosed bob_store \<and> users bob_store ''alice'' = None \<and>
   UpdatePassword recording_engine ''alice'' ''pw1'' ''pw9'' bob_store = (None, bob_store) \<and>
   storeEngine (snd (UpdatePassword recording_engine ''alice'' ''pw1'' ''pw9'' bob_store)) = []"
proof -
  have o: "\<not> isClosed bob_store" by (simp add: example_defs)
  have n: "users bob_store ''alice'' = None" by (simp add: example_defs)
  from UpdatePassword_unknown_user[OF o n, of recording_engine "''pw1''" "''pw9''"] o n
  show ?thesis by (simp add: example_defs)
qed

text \<open>
  Claim C8. On an open store, \<^verbatim>\<open>AddUser\<close> with a name that is taken returns the
  already-exist error and leaves the whole state (the user's record with it) as it
  was; with a new name it stores a user that has the given password and an empty
  monitor set, hands that user to the engine's \<^verbatim>\<open>WriteUser\<close> and returns what the
  engine returned.
\<close>

theorem AddUser_rejects_known_name:
  assumes "\<not> isClosed s"
  shows "(\<forall>u. users s username = Some u \<longrightarrow>
            AddUser E username password s =
              (Some (Errorf (''User '' @ username @ '' already exist'')), s)) \<and>
         (users s username = None \<longrightarrow>
            (\<exists>u'. Password u' = password \<and> MonitorServers u' = Map.empty \<and>
                   AddUser E username password s =
                     (map_option EngineError (fst (WriteUser E (storeEngine s) username u')),
                      s\<lparr>users := (users s)(username \<mapsto> u'),
                        storeEngine := snd (WriteUser E (storeEngine s) username u')\<rparr>)))"
proof (intro conjI allI impI)
  fix u assume "users s username = Some u"
  with assms show "AddUser E username password s =
      (Some (Errorf (''User '' @ username @ '' already exist'')), s)"
    by (simp add: AddUser_open)
next
  assume none: "users s username = None"
  let ?u = "newUser\<lparr>Password := password\<rparr>"
  have "Password ?u = password" "MonitorServers ?u = Map.empty"
    by (simp_all add: newUser_def)
  moreover from assms none have "AddUser E username password s =
      (map_option EngineError (fst (WriteUser E (storeEngine s) username ?u)),
       s\<lparr>users := (users s)(username \<mapsto> ?u),
         storeEngine := snd (WriteUser E (storeEngine s) username ?u)\<rparr>)"
    by (simp add: AddUser_open)
  ultimately show "\<exists>u'. Password u' = password \<and> MonitorServers u' = Map.empty \<and>
      AddUser E username password s =
        (map_option EngineError (fst (WriteUser E (storeEngine s) username u')),
         s\<lparr>users := (users s)(username \<mapsto> u'),
           storeEngine := snd (WriteUser E (storeEngine s) username u')\<rparr>)"
    by blast
qed

text \<open>Adding bob a second time, and adding carol, to the store that holds bob.\<close>

theorem AddUser_rejects_known_name_witness:
  "\<not> isClosed bob_store \<and> users bob_store ''bob'' = Some bob \<and>
   AddUser recording_engine ''bob'' ''pw3'' bob_store =
     (Some (Errorf ''User bob already exist''), bob_store) \<and>
   users bob_store ''carol'' = None \<and>
   (\<exists>u'. Password u' = ''pw3'' \<and> MonitorServers u' = Map.empty \<and>
      AddUser recording_engine ''carol'' ''pw3'' bob_store =
        (None, bob_store\<lparr>users := [''bob'' \<mapsto> bob, ''carol'' \<mapsto> u'],
                 storeEngine := [WriteUserCall ''carol'' u']\<rparr>))"
proof -
  have o: "\<not> isClosed bob_store" by (simp add: example_defs)
  have b: "users bob_store ''bob'' = Some bob" by (simp add: example_defs)
  have c: "users bob_store ''carol'' = None" by (simp add: example_defs)
  have e: "storeEngine bob_store = []" "users bob_store = [''bob'' \<mapsto> bob]"
    by (simp_all add: example_defs)
  from AddUser_rejects_known_name[OF o, of "''bob''" recording_engine "''pw3''"] b
  have 1: "AddUser recording_engine ''bob'' ''pw3'' bob_store =
     (Some (Errorf ''User bob already exist''), bob_store)" by simp
  from AddUser_rejects_known_name[OF o, of "''carol''" recording_engine "''pw3''"] c
  have 2: "\<exists>u'. Password u' = ''pw3'' \<and> MonitorServers u' = Map.empty \<and>
      AddUser recording_engine ''carol'' ''pw3'' bob_store =
        (None, bob_store\<lparr>users := [''bob'' \<mapsto> bob, ''carol'' \<mapsto> u'],
                 storeEngine := [WriteUserCall ''carol'' u']\<rparr>)"
    by (simp add: e recording_engine_def)
  from o b c 1 2 show ?thesis by blast
qed

subsection \<open>Monitor operations\<close>

text \<open>
  Claim C9. On an open store, when user \<open>u\<close> exists and does not monitor \<open>server\<close> and
  \<open>allServers\<close> has no entry for \<open>server\<close>, \<^verbatim>\<open>DeleteMonitorServer\<close> still sends \<open>server\<close>
  on \<^verbatim>\<open>KickServerChan\<close>, still calls the engine's \<^verbatim>\<open>WriteUser\<close> with the unchanged
  user and returns the result of that write; nothing else changes.
\<close>

theorem DeleteMonitorServer_unmonitored_kicks:
  assumes "\<not> isClosed s" and "users s username = Some u"
    and "\<not> monitors u server" and "allServers s server = None"
  shows "DeleteMonitorServer E username server s =
           (map_option EngineError (fst (WriteUser E (storeEngine s) username u)),
            s\<lparr>KickServerChan := KickServerChan s @ [server],
              storeEngine := snd (WriteUser E (storeEngine s) username u)\<rparr>)"
proof -
  from assms(2) have u: "(users s)(username \<mapsto> u) = users s" by (rule map_upd_triv)
  from assms(4) have a: "(allServers s)(server := None) = allServers s" by auto
  from assms show ?thesis
    by (simp add: DeleteMonitorServer_open refcount_def u a)
qed

text \<open>Bob, who monitors nothing, deletes srv1, which nobody monitors.\<close>

theorem DeleteMonitorServer_unmonitored_kicks_witness:
  "\<not> isClosed bob_store \<and> users bob_store ''bob'' = Some bob \<and> \<not> monitors bob ''srv1'' \<and>
   allServers bob_store ''srv1'' = None \<and>
   DeleteMonitorServer recording_engine ''bob'' ''srv1'' bob_store =
     (None, bob_store\<lparr>KickServerChan := [''srv1''],
              storeEngine := [WriteUserCall ''bob'' bob]\<rparr>)"
proof -
  have o: "\<not> isClosed bob_store" by (simp add: example_defs)
  have b: "users bob_store ''bob'' = Some bob" by (simp add: example_defs)
  have m: "\<not> monitors bob ''srv1''" by (simp add: monitors_def bob_def)
  have a: "allServers bob_store ''srv1'' = None" by (simp add: example_defs)
  from DeleteMonitorServer_unmonitored_kicks[OF o b m a, of recording_engine] o b m a
  show ?thesis by (simp add: example_defs)
qed

subsection \<open>After Close\<close>

text \<open>
  Claim C5. Once \<^verbatim>\<open>Close\<close> has returned, the closed flag is set; every call of
  \<^verbatim>\<open>UpdatePassword\<close>, \<^verbatim>\<open>AddUser\<close>, \<^verbatim>\<open>AddMonitorServer\<close>, \<^verbatim>\<open>DeleteMonitorServer\<close> and
  \<^verbatim>\<open>AppendPingRet\<close> returns \<^verbatim>\<open>nil\<close> and leaves the whole state (users, servers,
  allServers, both channels, the engine) as it was; \<^verbatim>\<open>GetUser\<close> and
  \<^verbatim>\<open>GetMonitorResult\<close> answer as they did before \<^verbatim>\<open>Close\<close>.
\<close>

theorem closed_store_ignores_mutations:
  assumes "Close s0 = Some s"
  shows "isClosed s \<and>
         UpdatePassword E username old new s = (None, s) \<and>
         AddUser E username password s = (None, s) \<and>
         AddMonitorServer E username server s = (None, s) \<and>
         DeleteMonitorServer E username server s = (None, s) \<and>
         AppendPingRet E order server location pr s = (None, s) \<and>
         GetUser s username = GetUser s0 username \<and>
         GetMonitorResult s username server = GetMonitorResult s0 username server"
proof -
  from Close_Some[OF assms] have s: "s = s0\<lparr>isClosed := True\<rparr>" .
  then have c: "isClosed s" by simp
  have q: "GetUser s username = GetUser s0 username"
    "GetMonitorResult s username server = GetMonitorResult s0 username server"
    by (simp_all add: s GetUser_def GetMonitorResult_def split: option.split)
  from c q show ?thesis
    by (simp add: UpdatePassword_def AddUser_def AddMonitorServer_def
          DeleteMonitorServer_def AppendPingRet_def do_closed)
qed

text \<open>
  Closing the store of alice (no call is pending) and calling each operation on
  the closed store.
\<close>

theorem closed_store_ignores_mutations_witness:
  "Close (alice_store ([] :: engine_call list)) = Some ((alice_store [])\<lparr>isClosed := True\<rparr>) \<and>
   UpdatePassword recording_engine ''alice'' ''pw1'' ''pw9'' ((alice_store [])\<lparr>isClosed := True\<rparr>)
     = (None, (alice_store [])\<lparr>isClosed := True\<rparr>) \<and>
   AddUser recording_engine ''alice'' ''pw2'' ((alice_store [])\<lparr>isClosed := True\<rparr>)
     = (None, (alice_store [])\<lparr>isClosed := True\<rparr>) \<and>
   AddMonitorServer recording_engine ''alice'' ''srv1'' ((alice_store [])\<lparr>isClosed := True\<rparr>)
     = (None, (alice_store [])\<lparr>isClosed := True\<rparr>) \<and>
   DeleteMonitorServer recording_engine ''alice'' ''srv1'' ((alice_store [])\<lparr>isClosed := True\<rparr>)
     = (None, (alice_store [])\<lparr>isClosed := True\<rparr>) \<and>
   AppendPingRet recording_engine [''eu''] ''srv1'' ''eu'' \<lparr>Time = ''t1'', Ping = ''10''\<rparr>
       ((alice_store [])\<lparr>isClosed := True\<rparr>)
     = (None, (alice_store [])\<lparr>isClosed := True\<rparr>) \<and>
   GetUser ((alice_store ([] :: engine_call list))\<lparr>isClosed := True\<rparr>) ''alice'' = Some alice \<and>
   GetMonitorResult ((alice_store ([] :: engine_call list))\<lparr>isClosed := True\<rparr>) ''alice'' ''srv1''
     = (None, None)"
proof -
  have c: "Close (alice_store ([] :: engine_call list)) = Some ((alice_store [])\<lparr>isClosed := True\<rparr>)"
    by (rule Close_returns) (simp add: alice_store_def)
  have g: "GetUser (alice_store ([] :: engine_call list)) ''alice'' = Some alice"
    "GetMonitorResult (alice_store ([] :: engine_call list)) ''alice'' ''srv1'' = (None, None)"
    by (simp_all add: GetUser_def GetMonitorResult_def alice_store_def alice_def)
  from closed_store_ignores_mutations[OF c, where E = recording_engine
      and username = "''alice''" and old = "''pw1''" and new = "''pw9''" and password = "''pw2''"
      and server = "''srv1''" and order = "[''eu'']" and location = "''eu''"
      and pr = "\<lparr>Time = ''t1'', Ping = ''10''\<rparr>"] c g
  show ?thesis by simp
qed

subsection \<open>Ping ingestion\<close>

lemma ensure_location_extends:
  "sv server = Some m0 \<Longrightarrow> m0 loc = Some prs \<Longrightarrow>
   ensure_location sv server location loc = Some prs"
  by (auto simp: ensure_location_def split: option.split)

lemma ensure_location_nonempty:
  "ensure_location sv server location loc = Some prs \<Longrightarrow> prs \<noteq> [] \<Longrightarrow>
   \<exists>m0. sv server = Some m0 \<and> m0 loc = Some prs"
  by (auto simp: ensure_location_def split: option.splits if_splits)

text \<open>
  Claim C7. On an open store \<^verbatim>\<open>AppendPingRet\<close> returns the error
  \<^verbatim>\<open>server ... is not exist\<close> exactly when the counter of the server (zero when
  absent) is not positive, and then the state is as it was. When the counter is
  positive, the location's sequence afterwards is its earlier samples, followed by
  the padding, followed by the incoming sample.
\<close>

theorem AppendPingRet_needs_monitored_server:
  assumes "\<not> isClosed s"
  shows "(fst (AppendPingRet E order server location pr s) =
            Some (Errorf (''server '' @ server @ '' is not exist'')))
           = (refcount (allServers s) server \<le> 0) \<and>
         (refcount (allServers s) server \<le> 0 \<longrightarrow>
            snd (AppendPingRet E order server location pr s) = s) \<and>
         (0 < refcount (allServers s) server \<longrightarrow>
            (\<exists>m pad. servers (snd (AppendPingRet E order server location pr s)) server = Some m \<and>
               m location =
                 Some ((case servers s server of None \<Rightarrow> [] | Some m0 \<Rightarrow> slice_at m0 location)
                       @ pad @ [pr])))"
proof -
  obtain pad where
    p: "pad_buffer (ensure_location (servers s) server location) order location pr
          = Some (pad @ [pr])"
    using pad_buffer_no_panic by blast
  have ne: "map_option EngineError x \<noteq> Some (Errorf msg)" for x msg
    by (cases x) simp_all
  show ?thesis
  proof (cases "refcount (allServers s) server \<le> 0")
    case True
    with assms show ?thesis by (simp add: AppendPingRet_open)
  next
    case False
    with assms show ?thesis
      by (simp add: AppendPingRet_open Let_def p ne slice_at_ensure_location)
  qed
qed

text \<open>
  The store of alice: a sample for srv1 is taken, one for srv2, which nobody
  monitors, is refused.
\<close>

theorem AppendPingRet_needs_monitored_server_witness:
  "\<not> isClosed (alice_store ([] :: engine_call list)) \<and>
   AppendPingRet recording_engine [''eu''] ''srv2'' ''eu'' \<lparr>Time = ''t1'', Ping = ''10''\<rparr>
       (alice_store [])
     = (Some (Errorf ''server srv2 is not exist''), alice_store []) \<and>
   fst (AppendPingRet recording_engine [''eu''] ''srv1'' ''eu'' \<lparr>Time = ''t1'', Ping = ''10''\<rparr>
       (alice_store [])) \<noteq> Some (Errorf ''server srv1 is not exist'') \<and>
   (\<exists>m pad. servers (snd (AppendPingRet recording_engine [''eu''] ''srv1'' ''eu''
                            \<lparr>Time = ''t1'', Ping = ''10''\<rparr> (alice_store []))) ''srv1'' = Some m \<and>
      m ''eu'' = Some ([] @ pad @ [\<lparr>Time = ''t1'', Ping = ''10''\<rparr>]))"
proof -
  have o: "\<not> isClosed (alice_store ([] :: engine_call list))" by (simp add: alice_store_def)
  have r2: "refcount (allServers (alice_store ([] :: engine_call list))) ''srv2'' \<le> 0"
    and r1: "0 < refcount (allServers (alice_store ([] :: engine_call list))) ''srv1''"
    and sv: "servers (alice_store ([] :: engine_call list)) ''srv1'' = None"
    by (simp_all add: alice_store_def refcount_def)
  from AppendPingRet_needs_monitored_server[OF o, of recording_engine "[''eu'']" "''srv2''"
      "''eu''" "\<lparr>Time = ''t1'', Ping = ''10''\<rparr>"] r2
  have a: "AppendPingRet recording_engine [''eu''] ''srv2'' ''eu'' \<lparr>Time = ''t1'', Ping = ''10''\<rparr>
       (alice_store [])
     = (Some (Errorf ''server srv2 is not exist''), alice_store [])"
    by (simp add: prod_eq_iff)
  from AppendPingRet_needs_monitored_server[OF o, of recording_engine "[''eu'']" "''srv1''"
      "''eu''" "\<lparr>Time = ''t1'', Ping = ''10''\<rparr>"] r1 sv
  have b: "fst (AppendPingRet recording_engine [''eu''] ''srv1'' ''eu'' \<lparr>Time = ''t1'', Ping = ''10''\<rparr>
       (alice_store [])) \<noteq> Some (Errorf ''server srv1 is not exist'') \<and>
   (\<exists>m pad. servers (snd (AppendPingRet recording_engine [''eu''] ''srv1'' ''eu''
                            \<lparr>Time = ''t1'', Ping = ''10''\<rparr> (alice_store []))) ''srv1'' = Some m \<and>
      m ''eu'' = Some ([] @ pad @ [\<lparr>Time = ''t1'', Ping = ''10''\<rparr>]))"
    by simp
  from o a b show ?thesis by blast
qed

lemma find_max_covers:
  assumes fm: "find_max m order (0, []) = (n, l)" and ord: "range_order order m"
    and loc: "m loc = Some prs"
  shows "length prs \<le> n"
proof -
  from ord loc have "loc \<in> set order" by (auto simp: range_order_def)
  with find_max_upper[OF fm] loc show ?thesis by blast
qed

text \<open>
  Claim C4. \<^verbatim>\<open>AppendPingRet\<close> on an open store, for a monitored server of which some
  location holds a sample already: the loop settles on a location \<open>maxLocation\<close> whose
  sequence \<open>longest\<close> is at least as long as that of every location of the server.
  The padding target is \<open>length longest - 1\<close> when the last sample of \<open>longest\<close> has the
  Time of the incoming sample, and \<open>length longest\<close> otherwise. The target location
  receives, after the samples it had, one placeholder for every index from its
  length up to the target (excluded), with the Time of \<open>longest\<close> at that index and
  Ping \<^verbatim>\<open>0.000\<close>, and then the incoming sample.
\<close>

theorem AppendPingRet_same_tick_guard:
  assumes "\<not> isClosed s" and "0 < refcount (allServers s) server"
    and "servers s server = Some m0" and "m0 loc0 = Some prs0" and "prs0 \<noteq> []"
    and "range_order order (ensure_location (servers s) server location)"
  shows "\<exists>maxLocation longest m.
           m0 maxLocation = Some longest \<and>
           (\<forall>loc prs. m0 loc = Some prs \<longrightarrow> length prs \<le> length longest) \<and>
           servers (snd (AppendPingRet E order server location pr s)) server = Some m \<and>
           m location =
             Some (slice_at m0 location @
                   map (\<lambda>i. \<lparr>Time = Time (longest ! i), Ping = ''0.000''\<rparr>)
                     [length (slice_at m0 location) ..<
                        (if Time (last longest) = Time pr
                         then length longest - 1 else length longest)] @
                   [pr])"
proof -
  let ?m = "ensure_location (servers s) server location"
  obtain n l where fm: "find_max ?m order (0, []) = (n, l)"
    by (cases "find_max ?m order (0, [])")
  from assms(3,4) have "?m loc0 = Some prs0" by (rule ensure_location_extends)
  from find_max_covers[OF fm assms(6) this] assms(5) have n: "n \<noteq> 0"
    by (cases prs0) auto
  from pad_buffer_longest[OF fm n, of location pr] obtain longest where
    l: "?m l = Some longest" and len: "length longest = n" and
    pb: "pad_buffer ?m order location pr =
           Some (map (\<lambda>k. defaultPingRet (Time (longest ! k)))
                   [length (slice_at ?m location) ..< pad_target longest pr] @ [pr])"
    by blast
  from len n have "longest \<noteq> []" by auto
  with ensure_location_nonempty[OF l] assms(3) have l0: "m0 l = Some longest" by auto
  have mx: "length prs \<le> length longest" if "m0 loc = Some prs" for loc prs
  proof -
    from assms(3) that have "?m loc = Some prs" by (rule ensure_location_extends)
    from find_max_covers[OF fm assms(6) this] len show ?thesis by simp
  qed
  have old: "slice_at ?m location = slice_at m0 location"
    by (simp add: slice_at_ensure_location assms(3))
  from assms(1,2) have
    "servers (snd (AppendPingRet E order server location pr s)) server =
       Some (?m(location \<mapsto> slice_at m0 location @
               map (\<lambda>i. \<lparr>Time = Time (longest ! i), Ping = ''0.000''\<rparr>)
                 [length (slice_at m0 location) ..<
                    (if Time (last longest) = Time pr
                     then length longest - 1 else length longest)] @ [pr]))"
    by (simp add: AppendPingRet_open Let_def pb old pad_target_def defaultPingRet_def
          DEFAULT_PING_def)
  with l0 mx show ?thesis by fastforce
qed


lemmas eval_defs =
  AppendPingRet_def guard_defs Let_def ensure_location_def pad_buffer_def slice_at_def
  pad_loop.simps refcount_def defaultPingRet_def DEFAULT_PING_def

text \<open>
  Location eu holds the ticks t1 and t2. A first sample of location us at tick t2
  is preceded by one placeholder (for t1); at a later tick t3 it is preceded by two.
\<close>

theorem AppendPingRet_same_tick_guard_witness:
  "\<not> isClosed tick_store \<and> 0 < refcount (allServers tick_store) ''srv1'' \<and>
   servers tick_store ''srv1'' = Some tick_locations \<and>
   tick_locations ''eu'' = Some [\<lparr>Time = ''t1'', Ping = ''10''\<rparr>, \<lparr>Time = ''t2'', Ping = ''11''\<rparr>] \<and>
   range_order [''us'', ''eu''] (ensure_location (servers tick_store) ''srv1'' ''us'') \<and>
   (\<exists>maxLocation longest m.
      tick_locations maxLocation = Some longest \<and>
      (\<forall>loc prs. tick_locations loc = Some prs \<longrightarrow> length prs \<le> length longest) \<and>
      servers (snd (AppendPingRet recording_engine [''us'', ''eu''] ''srv1'' ''us''
                      \<lparr>Time = ''t2'', Ping = ''12''\<rparr> tick_store)) ''srv1'' = Some m \<and>
      m ''us'' =
        Some (slice_at tick_locations ''us'' @
              map (\<lambda>i. \<lparr>Time = Time (longest ! i), Ping = ''0.000''\<rparr>)
                [length (slice_at tick_locations ''us'') ..<
                   (if Time (last longest) = Time \<lparr>Time = ''t2'', Ping = ''12''\<rparr>
                    then length longest - 1 else length longest)] @
              [\<lparr>Time = ''t2'', Ping = ''12''\<rparr>])) \<and>
   (\<exists>m. servers (snd (AppendPingRet recording_engine [''us'', ''eu''] ''srv1'' ''us''
                      \<lparr>Time = ''t2'', Ping = ''12''\<rparr> tick_store)) ''srv1'' = Some m \<and>
        m ''us'' = Some [\<lparr>Time = ''t1'', Ping = ''0.000''\<rparr>, \<lparr>Time = ''t2'', Ping = ''12''\<rparr>]) \<and>
   (\<exists>m. servers (snd (AppendPingRet recording_engine [''us'', ''eu''] ''srv1'' ''us''
                      \<lparr>Time = ''t3'', Ping = ''12''\<rparr> tick_store)) ''srv1'' = Some m \<and>
        m ''us'' = Some [\<lparr>Time = ''t1'', Ping = ''0.000''\<rparr>, \<lparr>Time = ''t2'', Ping = ''0.000''\<rparr>,
                         \<lparr>Time = ''t3'', Ping = ''12''\<rparr>])"
proof -
  have o: "\<not> isClosed tick_store" and r: "0 < refcount (allServers tick_store) ''srv1''"
    and sv: "servers tick_store ''srv1'' = Some tick_locations"
    by (simp_all add: tick_store_def alice_store_def refcount_def)
  have eu: "tick_locations ''eu'' =
      Some [\<lparr>Time = ''t1'', Ping = ''10''\<rparr>, \<lparr>Time = ''t2'', Ping = ''11''\<rparr>]"
    by (simp add: tick_locations_def)
  have ne: "[\<lparr>Time = ''t1'', Ping = ''10''\<rparr>, \<lparr>Time = ''t2'', Ping = ''11''\<rparr>] \<noteq> []" by simp
  have ro: "range_order [''us'', ''eu''] (ensure_location (servers tick_store) ''srv1'' ''us'')"
    by (auto simp: range_order_def ensure_location_def sv tick_locations_def)
  note t = AppendPingRet_same_tick_guard[OF o r sv eu ne ro, of recording_engine
      "\<lparr>Time = ''t2'', Ping = ''12''\<rparr>"]
  have e2: "\<exists>m. servers (snd (AppendPingRet recording_engine [''us'', ''eu''] ''srv1'' ''us''
                      \<lparr>Time = ''t2'', Ping = ''12''\<rparr> tick_store)) ''srv1'' = Some m \<and>
        m ''us'' = Some [\<lparr>Time = ''t1'', Ping = ''0.000''\<rparr>, \<lparr>Time = ''t2'', Ping = ''12''\<rparr>]"
    by (simp add: eval_defs tick_store_def tick_locations_def alice_store_def recording_engine_def)
  have e3: "\<exists>m. servers (snd (AppendPingRet recording_engine [''us'', ''eu''] ''srv1'' ''us''
                      \<lparr>Time = ''t3'', Ping = ''12''\<rparr> tick_store)) ''srv1'' = Some m \<and>
        m ''us'' = Some [\<lparr>Time = ''t1'', Ping = ''0.000''\<rparr>, \<lparr>Time = ''t2'', Ping = ''0.000''\<rparr>,
                         \<lparr>Time = ''t3'', Ping = ''12''\<rparr>]"
    by (simp add: eval_defs tick_store_def tick_locations_def alice_store_def recording_engine_def)
  from o r sv eu ro t e2 e3 show ?thesis by (intro conjI)
qed

lemma find_max_all_empty:
  assumes "\<And>loc prs. m loc = Some prs \<Longrightarrow> prs = []"
  shows "fst (find_max m order (0, [])) = 0"
proof -
  obtain n l where fm: "find_max m order (0, []) = (n, l)"
    by (cases "find_max m order (0, [])")
  from find_max_cases[OF fm] assms have "n = 0" by auto
  with fm show ?thesis by simp
qed

lemma find_max_unique:
  assumes l: "l \<in> set order" and ml: "m l = Some longest" and ne: "longest \<noteq> []"
    and others: "\<And>loc prs. m loc = Some prs \<Longrightarrow> loc \<noteq> l \<Longrightarrow> length prs < length longest"
  shows "find_max m order (0, []) = (length longest, l)"
proof -
  obtain n l' where fm: "find_max m order (0, []) = (n, l')"
    by (cases "find_max m order (0, [])")
  from find_max_upper[OF fm] l ml have le: "length longest \<le> n" by blast
  with ne have "n \<noteq> 0" by (cases longest) auto
  with find_max_cases[OF fm] obtain prs where p: "m l' = Some prs" "length prs = n" by auto
  have "l' = l"
  proof (rule ccontr)
    assume "l' \<noteq> l"
    from others[OF p(1) this] p(2) le show False by simp
  qed
  with p ml fm show ?thesis by simp
qed

text \<open>
  Claim C3. The store holds alice, who monitors srv1, and no sample. In whatever
  order the locations are visited: \<^verbatim>\<open>AppendPingRet("srv1","eu",{t1,10})\<close> writes the
  batch of that one sample to the engine, makes it the sequence of eu and returns what
  the engine returned (so it succeeds when the engine's write does). The following
  \<^verbatim>\<open>AppendPingRet("srv1","us",{t2,12})\<close> writes the batch of the placeholder
  \<^verbatim>\<open>{t1, 0.000}\<close> and the sample to the engine and makes that batch the sequence of us.
\<close>

theorem padding_scenario:
  assumes "range_order order2 [''eu'' \<mapsto> [\<lparr>Time = ''t1'', Ping = ''10''\<rparr>], ''us'' \<mapsto> []]"
  shows
   "AppendPingRet E order1 ''srv1'' ''eu'' \<lparr>Time = ''t1'', Ping = ''10''\<rparr> (alice_store e) =
      (map_option EngineError
         (fst (BatchWritePingRets E e ''srv1'' ''eu'' [\<lparr>Time = ''t1'', Ping = ''10''\<rparr>])),
       (alice_store e)
         \<lparr>servers := [''srv1'' \<mapsto> [''eu'' \<mapsto> [\<lparr>Time = ''t1'', Ping = ''10''\<rparr>]]],
          storeEngine :=
            snd (BatchWritePingRets E e ''srv1'' ''eu'' [\<lparr>Time = ''t1'', Ping = ''10''\<rparr>])\<rparr>) \<and>
    AppendPingRet E order2 ''srv1'' ''us'' \<lparr>Time = ''t2'', Ping = ''12''\<rparr>
        ((alice_store e)
           \<lparr>servers := [''srv1'' \<mapsto> [''eu'' \<mapsto> [\<lparr>Time = ''t1'', Ping = ''10''\<rparr>]]],
            storeEngine := e1\<rparr>) =
      (map_option EngineError
         (fst (BatchWritePingRets E e1 ''srv1'' ''us''
                 [\<lparr>Time = ''t1'', Ping = ''0.000''\<rparr>, \<lparr>Time = ''t2'', Ping = ''12''\<rparr>])),
       (alice_store e)
         \<lparr>servers :=
            [''srv1'' \<mapsto> [''eu'' \<mapsto> [\<lparr>Time = ''t1'', Ping = ''10''\<rparr>],
                          ''us'' \<mapsto> [\<lparr>Time = ''t1'', Ping = ''0.000''\<rparr>,
                                      \<lparr>Time = ''t2'', Ping = ''12''\<rparr>]]],
          storeEngine :=
            snd (BatchWritePingRets E e1 ''srv1'' ''us''
                   [\<lparr>Time = ''t1'', Ping = ''0.000''\<rparr>, \<lparr>Time = ''t2'', Ping = ''12''\<rparr>])\<rparr>)"
proof
  let ?p1 = "\<lparr>Time = ''t1'', Ping = ''10''\<rparr>"
  let ?p2 = "\<lparr>Time = ''t2'', Ping = ''12''\<rparr>"
  let ?s = "alice_store e"
  have o: "\<not> isClosed ?s" and r: "\<not> refcount (allServers ?s) ''srv1'' \<le> 0"
    by (simp_all add: alice_store_def refcount_def)
  have m1: "ensure_location (servers ?s) ''srv1'' ''eu'' = [''eu'' \<mapsto> []]"
    "ensure_location Map.empty ''srv1'' ''eu'' = [''eu'' \<mapsto> []]"
    by (simp_all add: ensure_location_def alice_store_def)
  have "fst (find_max [''eu'' \<mapsto> []] order1 (0, [])) = 0"
    by (rule find_max_all_empty) (simp split: if_splits)
  then obtain l where "find_max [''eu'' \<mapsto> []] order1 (0, []) = (0, l)"
    by (cases "find_max [''eu'' \<mapsto> []] order1 (0, [])") simp
  then have pb1: "pad_buffer [''eu'' \<mapsto> []] order1 ''eu'' ?p1 = Some [?p1]"
    by (rule pad_buffer_empty)
  show "AppendPingRet E order1 ''srv1'' ''eu'' ?p1 ?s =
      (map_option EngineError (fst (BatchWritePingRets E e ''srv1'' ''eu'' [?p1])),
       ?s\<lparr>servers := [''srv1'' \<mapsto> [''eu'' \<mapsto> [?p1]]],
          storeEngine := snd (BatchWritePingRets E e ''srv1'' ''eu'' [?p1])\<rparr>)"
    using o r by (simp add: AppendPingRet_open m1 pb1 Let_def slice_at_def) (simp add: alice_store_def)
next
  let ?p1 = "\<lparr>Time = ''t1'', Ping = ''10''\<rparr>"
  let ?p2 = "\<lparr>Time = ''t2'', Ping = ''12''\<rparr>"
  let ?pad = "\<lparr>Time = ''t1'', Ping = ''0.000''\<rparr>"
  let ?s = "(alice_store e)\<lparr>servers := [''srv1'' \<mapsto> [''eu'' \<mapsto> [?p1]]], storeEngine := e1\<rparr>"
  let ?m = "[''eu'' \<mapsto> [?p1], ''us'' \<mapsto> []]"
  have o: "\<not> isClosed ?s" and r: "\<not> refcount (allServers ?s) ''srv1'' \<le> 0"
    by (simp_all add: alice_store_def refcount_def)
  have m2: "ensure_location [''srv1'' \<mapsto> [''eu'' \<mapsto> [?p1]]] ''srv1'' ''us'' = ?m"
    by (simp add: ensure_location_def)
  from assms have eu: "''eu'' \<in> set order2" by (simp add: range_order_def)
  have fm: "find_max ?m order2 (0, []) = (length [?p1], ''eu'')"
    by (rule find_max_unique[OF eu]) (auto split: if_splits)
  have n: "length [?p1] \<noteq> 0" by simp
  from pad_buffer_longest[OF fm n, of "''us''" ?p2]
  have pb2: "pad_buffer ?m order2 ''us'' ?p2 = Some [?pad, ?p2]"
    by (simp add: slice_at_def pad_target_def defaultPingRet_def DEFAULT_PING_def)
  show "AppendPingRet E order2 ''srv1'' ''us'' ?p2 ?s =
      (map_option EngineError (fst (BatchWritePingRets E e1 ''srv1'' ''us'' [?pad, ?p2])),
       (alice_store e)
         \<lparr>servers := [''srv1'' \<mapsto> [''eu'' \<mapsto> [?p1], ''us'' \<mapsto> [?pad, ?p2]]],
          storeEngine := snd (BatchWritePingRets E e1 ''srv1'' ''us'' [?pad, ?p2])\<rparr>)"
    using o r by (simp add: AppendPingRet_open m2 pb2 Let_def slice_at_def)
qed


text \<open>
  With the recording engine, which accepts every write, both calls return \<^verbatim>\<open>nil\<close>
  and the engine has received the two batches.
\<close>

theorem padding_scenario_witness:
  "range_order [''us'', ''eu''] [''eu'' \<mapsto> [\<lparr>Time = ''t1'', Ping = ''10''\<rparr>], ''us'' \<mapsto> []] \<and>
   AppendPingRet recording_engine [''eu''] ''srv1'' ''eu'' \<lparr>Time = ''t1'', Ping = ''10''\<rparr>
       (alice_store []) =
     (None,
      (alice_store [])
        \<lparr>servers := [''srv1'' \<mapsto> [''eu'' \<mapsto> [\<lparr>Time = ''t1'', Ping = ''10''\<rparr>]]],
         storeEngine :=
           [BatchWritePingRetsCall ''srv1'' ''eu'' [\<lparr>Time = ''t1'', Ping = ''10''\<rparr>]]\<rparr>) \<and>
   AppendPingRet recording_engine [''us'', ''eu''] ''srv1'' ''us'' \<lparr>Time = ''t2'', Ping = ''12''\<rparr>
       ((alice_store [])
          \<lparr>servers := [''srv1'' \<mapsto> [''eu'' \<mapsto> [\<lparr>Time = ''t1'', Ping = ''10''\<rparr>]]],
           storeEngine :=
             [BatchWritePingRetsCall ''srv1'' ''eu'' [\<lparr>Time = ''t1'', Ping = ''10''\<rparr>]]\<rparr>) =
     (None,
      (alice_store [])
        \<lparr>servers :=
           [''srv1'' \<mapsto> [''eu'' \<mapsto> [\<lparr>Time = ''t1'', Ping = ''10''\<rparr>],
                         ''us'' \<mapsto> [\<lparr>Time = ''t1'', Ping = ''0.000''\<rparr>,
                                     \<lparr>Time = ''t2'', Ping = ''12''\<rparr>]]],
         storeEngine :=
           [BatchWritePingRetsCall ''srv1'' ''eu'' [\<lparr>Time = ''t1'', Ping = ''10''\<rparr>],
            BatchWritePingRetsCall ''srv1'' ''us''
              [\<lparr>Time = ''t1'', Ping = ''0.000''\<rparr>, \<lparr>Time = ''t2'', Ping = ''12''\<rparr>]]\<rparr>)"
proof -
  have ro: "range_order [''us'', ''eu'']
              [''eu'' \<mapsto> [\<lparr>Time = ''t1'', Ping = ''10''\<rparr>], ''us'' \<mapsto> []]"
    by (auto simp: range_order_def)
  from padding_scenario[OF ro, of recording_engine "[''eu'']" "[]"
      "[BatchWritePingRetsCall ''srv1'' ''eu'' [\<lparr>Time = ''t1'', Ping = ''10''\<rparr>]]"] ro
  show ?thesis by (simp add: recording_engine_def)
qed

subsection \<open>Reference counts\<close>

lemma monitoring_users_finite:
  "finite (dom (users s)) \<Longrightarrow> finite (monitoring_users s server)"
  by (rule finite_subset[of _ "dom (users s)"]) (auto simp: monitoring_users_def)


lemma UpdatePassword_consistent:
  assumes "refcount_consistent s"
  shows "refcount_consistent (snd (UpdatePassword E username old new s))"
proof (cases "isClosed s")
  case True
  with assms show ?thesis by (simp add: UpdatePassword_def do_closed)
next
  case False
  show ?thesis
  proof (cases "users s username")
    case None
    with False assms show ?thesis by (simp add: UpdatePassword_open)
  next
    case (Some u)
    have m: "monitoring_users (s\<lparr>users := (users s)(username \<mapsto> u\<lparr>Password := new\<rparr>),
                                  storeEngine := e\<rparr>) x = monitoring_users s x" for e x
      using Some by (auto simp: monitoring_users_def monitors_def)
    from False Some assms show ?thesis
      by (simp add: UpdatePassword_open refcount_consistent_def m)
  qed
qed

lemma AddUser_consistent:
  assumes "refcount_consistent s"
  shows "refcount_consistent (snd (AddUser E username password s))"
proof (cases "isClosed s")
  case True
  with assms show ?thesis by (simp add: AddUser_def do_closed)
next
  case False
  show ?thesis
  proof (cases "users s username")
    case (Some u)
    with False assms show ?thesis by (simp add: AddUser_open)
  next
    case None
    have m: "monitoring_users (s\<lparr>users := (users s)(username \<mapsto> newUser\<lparr>Password := password\<rparr>),
                                  storeEngine := e\<rparr>) x = monitoring_users s x" for e x
      using None by (auto simp: monitoring_users_def monitors_def newUser_def)
    from False None assms show ?thesis
      by (simp add: AddUser_open refcount_consistent_def m)
  qed
qed

lemma AddMonitorServer_consistent:
  assumes "refcount_consistent s"
  shows "refcount_consistent (snd (AddMonitorServer E username server s))"
proof (cases "isClosed s")
  case True
  with assms show ?thesis by (simp add: AddMonitorServer_def do_closed)
next
  case False
  show ?thesis
  proof (cases "users s username")
    case None
    with False assms show ?thesis by (simp add: AddMonitorServer_open)
  next
    case (Some u)
    show ?thesis
    proof (cases "monitors u server")
      case True
      with False Some assms show ?thesis by (simp add: AddMonitorServer_open)
    next
      case nm: False
      let ?u = "u\<lparr>MonitorServers := (MonitorServers u)(server \<mapsto> True)\<rparr>"
      let ?s = "s\<lparr>users := (users s)(username \<mapsto> ?u),
                  allServers := (allServers s)(server \<mapsto> refcount (allServers s) server + 1),
                  AddServerChan := (case allServers s server of
                                      None \<Rightarrow> AddServerChan s @ [server]
                                    | Some n \<Rightarrow> AddServerChan s),
                  storeEngine := snd (WriteUser E (storeEngine s) username ?u)\<rparr>"
      from assms have fin: "finite (dom (users s))"
        and cnt: "\<And>x. refcount (allServers s) x = int (card (monitoring_users s x))"
        by (simp_all add: refcount_consistent_def)
      have notin: "username \<notin> monitoring_users s server"
        using Some nm by (simp add: monitoring_users_def)
      have m1: "monitoring_users ?s server = insert username (monitoring_users s server)"
        using Some by (auto simp: monitoring_users_def monitors_def)
      have m2: "monitoring_users ?s x = monitoring_users s x" if "x \<noteq> server" for x
        using Some that by (auto simp: monitoring_users_def monitors_def)
      have "refcount (allServers ?s) x = int (card (monitoring_users ?s x))" for x
      proof (cases "x = server")
        case True
        with m1 notin monitoring_users_finite[OF fin, of server] cnt[of server]
        show ?thesis by (simp add: refcount_def)
      next
        case False
        with m2[OF False] cnt[of x] show ?thesis by (simp add: refcount_def)
      qed
      moreover have "finite (dom (users ?s))" using fin by simp
      ultimately have "refcount_consistent ?s" by (simp add: refcount_consistent_def)
      with False Some nm show ?thesis by (simp add: AddMonitorServer_open)
    qed
  qed
qed


lemma DeleteMonitorServer_consistent:
  assumes "refcount_consistent s"
  shows "refcount_consistent (snd (DeleteMonitorServer E username server s))"
proof (cases "isClosed s")
  case True
  with assms show ?thesis by (simp add: DeleteMonitorServer_def do_closed)
next
  case False
  from assms have fin: "finite (dom (users s))"
    and cnt: "\<And>x. refcount (allServers s) x = int (card (monitoring_users s x))"
    by (simp_all add: refcount_consistent_def)
  show ?thesis
  proof (cases "users s username")
    case None
    with False assms show ?thesis by (simp add: DeleteMonitorServer_open)
  next
    case (Some u)
    show ?thesis
    proof (cases "monitors u server")
      case mon: True
      let ?u = "u\<lparr>MonitorServers := (MonitorServers u)(server := None)\<rparr>"
      let ?all1 = "(allServers s)(server \<mapsto> refcount (allServers s) server - 1)"
      let ?s = "s\<lparr>users := (users s)(username \<mapsto> ?u),
                  allServers := (if refcount ?all1 server \<le> 0 then ?all1(server := None) else ?all1),
                  KickServerChan := (if refcount ?all1 server \<le> 0
                                     then KickServerChan s @ [server] else KickServerChan s),
                  storeEngine := snd (WriteUser E (storeEngine s) username ?u)\<rparr>"
      have isin: "username \<in> monitoring_users s server"
        using Some mon by (simp add: monitoring_users_def)
      have m1: "monitoring_users ?s server = monitoring_users s server - {username}"
        using Some by (auto simp: monitoring_users_def monitors_def)
      have m2: "monitoring_users ?s x = monitoring_users s x" if "x \<noteq> server" for x
        using Some that by (auto simp: monitoring_users_def monitors_def)
      have pos: "0 < card (monitoring_users s server)"
        using isin monitoring_users_finite[OF fin, of server] by (auto simp: card_gt_0_iff)
      have "card (monitoring_users ?s server) = card (monitoring_users s server) - 1"
        unfolding m1 using isin by (simp add: card_Diff_singleton)
      with pos cnt[of server]
      have c1: "int (card (monitoring_users ?s server)) = refcount (allServers s) server - 1"
        by simp
      have "refcount (allServers ?s) x = int (card (monitoring_users ?s x))" for x
      proof (cases "x = server")
        case True
        have "0 \<le> refcount (allServers s) server - 1" using c1[symmetric] by simp
        then show ?thesis unfolding True c1 by (simp add: refcount_def)
      next
        case False
        with m2[OF False] cnt[of x] show ?thesis by (simp add: refcount_def)
      qed
      moreover have "finite (dom (users ?s))" using fin by simp
      ultimately have "refcount_consistent ?s" by (simp add: refcount_consistent_def)
      with False Some mon show ?thesis by (simp add: DeleteMonitorServer_open Let_def)
    next
      case nm: False
      let ?s = "s\<lparr>users := (users s)(username \<mapsto> u),
                  allServers := (if refcount (allServers s) server \<le> 0
                                 then (allServers s)(server := None) else allServers s),
                  KickServerChan := (if refcount (allServers s) server \<le> 0
                                     then KickServerChan s @ [server] else KickServerChan s),
                  storeEngine := snd (WriteUser E (storeEngine s) username u)\<rparr>"
      from Some have same: "(users s)(username \<mapsto> u) = users s" by (rule map_upd_triv)
      have "refcount (allServers ?s) x = int (card (monitoring_users ?s x))" for x
      proof (cases "x = server \<and> refcount (allServers s) server \<le> 0")
        case True
        with cnt[of server] have "card (monitoring_users s server) = 0" by simp
        with True show ?thesis by (simp add: monitoring_users_def same refcount_def)
      next
        case False
        with cnt[of x] show ?thesis by (auto simp: monitoring_users_def same refcount_def)
      qed
      moreover have "finite (dom (users ?s))" using fin by simp
      ultimately have "refcount_consistent ?s" by (simp add: refcount_consistent_def)
      with False Some nm show ?thesis by (simp add: DeleteMonitorServer_open Let_def)
    qed
  qed
qed

lemma AppendPingRet_consistent:
  assumes "refcount_consistent s"
  shows "refcount_consistent (snd (AppendPingRet E order server location pr s))"
proof (cases "isClosed s")
  case True
  with assms show ?thesis by (simp add: AppendPingRet_def do_closed)
next
  case False
  have m: "monitoring_users (s\<lparr>servers := sv, storeEngine := e\<rparr>) x = monitoring_users s x"
    for sv e x by (simp add: monitoring_users_def)
  from False assms show ?thesis
    by (simp add: AppendPingRet_open Let_def refcount_consistent_def m)
qed

lemma step_consistent: "refcount_consistent s \<Longrightarrow> refcount_consistent (step E c s)"
  by (cases c)
    (simp_all add: UpdatePassword_consistent AddUser_consistent DeleteMonitorServer_consistent
       AddMonitorServer_consistent AppendPingRet_consistent)

lemma run_consistent: "refcount_consistent s \<Longrightarrow> refcount_consistent (run E calls s)"
  by (induction calls arbitrary: s) (simp_all add: step_consistent)

text \<open>
  Claim C1. From a store in which every counter of \<open>allServers\<close> (zero when absent)
  is the number of users whose monitor set holds the server, every sequence of
  calls of the mutating operations (\<^verbatim>\<open>AddUser\<close>, \<^verbatim>\<open>AddMonitorServer\<close> and
  \<^verbatim>\<open>DeleteMonitorServer\<close> among them) leads to a store in which that holds again,
  for every server and whatever the engine answers.
\<close>

theorem reference_count_invariant:
  assumes "refcount_consistent s"
  shows "refcount (allServers (run E calls s)) server =
           int (card {n. \<exists>u. users (run E calls s) n = Some u \<and> monitors u server})"
  using run_consistent[OF assms, of E calls]
  by (simp add: refcount_consistent_def monitoring_users_def)


text \<open>
  From the empty store: alice and bob are added, both start to monitor srv1, alice
  stops. The counter of srv1 is 1, and one user monitors srv1.
\<close>

theorem reference_count_invariant_witness:
  "refcount_consistent fresh_store \<and>
   refcount (allServers (run recording_engine
      [CallAddUser ''alice'' ''pw1'', CallAddUser ''bob'' ''pw2'',
       CallAddMonitorServer ''alice'' ''srv1'', CallAddMonitorServer ''bob'' ''srv1'',
       CallDeleteMonitorServer ''alice'' ''srv1''] fresh_store)) ''srv1'' = 1 \<and>
   int (card {n. \<exists>u. users (run recording_engine
      [CallAddUser ''alice'' ''pw1'', CallAddUser ''bob'' ''pw2'',
       CallAddMonitorServer ''alice'' ''srv1'', CallAddMonitorServer ''bob'' ''srv1'',
       CallDeleteMonitorServer ''alice'' ''srv1''] fresh_store) n = Some u \<and>
      monitors u ''srv1''}) = 1"
proof -
  have h: "refcount_consistent fresh_store"
    by (simp add: refcount_consistent_def monitoring_users_def refcount_def fresh_store_def)
  have v: "refcount (allServers (run recording_engine
      [CallAddUser ''alice'' ''pw1'', CallAddUser ''bob'' ''pw2'',
       CallAddMonitorServer ''alice'' ''srv1'', CallAddMonitorServer ''bob'' ''srv1'',
       CallDeleteMonitorServer ''alice'' ''srv1''] fresh_store)) ''srv1'' = 1"
    by (simp add: AddUser_def AddMonitorServer_def DeleteMonitorServer_def guard_defs Let_def
          refcount_def monitors_def newUser_def recording_engine_def fresh_store_def)
  from reference_count_invariant[OF h, of recording_engine
      "[CallAddUser ''alice'' ''pw1'', CallAddUser ''bob'' ''pw2'',
        CallAddMonitorServer ''alice'' ''srv1'', CallAddMonitorServer ''bob'' ''srv1'',
        CallDeleteMonitorServer ''alice'' ''srv1'']" "''srv1''"] h v
  show ?thesis by simp
qed

subsection \<open>Failing engine writes\<close>




subsection \<open>Channel notifications\<close>

















end
